theory Spec2Isabelle
  imports Main "HOL-Library.Char_ord" "HOL-Library.List_Lexorder"
begin

section \<open>Python exceptions\<close>

text \<open>
  The exceptions the two engines of \<^verbatim>\<open>twitter_api.py\<close> can meet. An exception that the
  source catches becomes a stop reason of the loop; one it does not catch becomes the
  error value of the run.
\<close>

datatype py_exception =
    AttributeError
  | KeyError
  | TypeError
  | JSONDecodeError
  | FileNotFoundError

section \<open>The pagination engine: \<^verbatim>\<open>search_tweets\<close>\<close>

subsection \<open>What the client returns\<close>

text \<open>
  \<^verbatim>\<open>client.get_users_tweets\<close> is the upstream. The loop reads two things of a response:
  \<^verbatim>\<open>response.meta["next_token"]\<close> and \<^verbatim>\<open>response.data\<close>, whose elements it reads
  through \<^verbatim>\<open>result.data\<close>.

  \<^item> \<open>Missing\<close>: the subscript raises \<^verbatim>\<open>AttributeError\<close> or \<^verbatim>\<open>KeyError\<close> (the key
    \<^verbatim>\<open>next_token\<close> is not in \<^verbatim>\<open>meta\<close>); \<open>Token v\<close>: the key is there and holds \<open>v\<close>,
    which is \<open>None\<close> for Python's \<^verbatim>\<open>None\<close>.
  \<^item> \<open>NoData\<close>: \<^verbatim>\<open>result.data\<close> raises \<^verbatim>\<open>AttributeError\<close> or \<^verbatim>\<open>KeyError\<close>;
    \<open>Data d\<close>: it is the dictionary \<open>d\<close>.
  \<^item> \<open>NoDataAttr\<close>: \<^verbatim>\<open>response.data\<close> raises \<^verbatim>\<open>AttributeError\<close>; \<open>DataNone\<close>: it is
    \<^verbatim>\<open>None\<close>, which the \<^verbatim>\<open>for\<close> statement refuses with a \<^verbatim>\<open>TypeError\<close> that the
    \<^verbatim>\<open>except (AttributeError, KeyError)\<close> clause does not catch; \<open>Results rs\<close>: it is
    the list \<open>rs\<close>.
\<close>

datatype next_token_field = Missing | Token "string option"

datatype 'a result = NoData | Data 'a

datatype 'a data_field = NoDataAttr | DataNone | Results "'a result list"

record 'a response =
  meta_next_token :: next_token_field
  response_data :: "'a data_field"

text \<open>
  The upstream answers the \<open>n\<close>-th call (counted from 0) of a run, made with
  \<^verbatim>\<open>max_results\<close> and \<^verbatim>\<open>pagination_token\<close>. Nothing is assumed about it.
\<close>

type_synonym 'a client = "nat \<Rightarrow> int \<Rightarrow> string option \<Rightarrow> 'a response"

subsection \<open>The state of the generator\<close>

text \<open>
  The local variables of \<^verbatim>\<open>search_tweets\<close>, with two traces added: \<open>yielded\<close>, the
  items the generator has yielded so far, each with the \<^verbatim>\<open>next_token\<close> stamped on it
  (\<^verbatim>\<open>data["next_token"] = next_token\<close>), and \<open>requests\<close>, the \<^verbatim>\<open>pagination_token\<close> of
  every call made so far, in order.
\<close>

record 'a search_state =
  pagination_token :: "string option"
  count :: int
  pagination_tokens :: "string option set"
  yielded :: "('a \<times> string option) list"
  requests :: "string option list"

text \<open>Why the loop was left: one constructor for each \<^verbatim>\<open>break\<close>, and the uncaught exception.\<close>

datatype stop =
    CannotExtractToken
  | CannotExtractResult
  | NoMoreData
  | TokenAlreadyCollected
  | TokenIsNone
  | CountReached
  | Uncaught py_exception

record 'a run =
  final :: "'a search_state"
  stopped :: "stop option"

subsection \<open>The loop\<close>

text \<open>
  The \<^verbatim>\<open>for\<close> loop inside the second \<^verbatim>\<open>try\<close>: every result before the first unreadable
  one is stamped and yielded.
\<close>

fun yield_page :: "'a result list \<Rightarrow> string option \<Rightarrow> ('a \<times> string option) list" where
  "yield_page [] next_token = []"
| "yield_page (NoData # rs) next_token = []"
| "yield_page (Data d # rs) next_token = (d, next_token) # yield_page rs next_token"

definition readable :: "'a result list \<Rightarrow> bool" where
  "readable rs = (NoData \<notin> set rs)"

text \<open>
  One pass through the body of \<^verbatim>\<open>while True\<close>: the state after it, and the reason of
  the \<^verbatim>\<open>break\<close> if one was taken.
\<close>

definition loop_body ::
  "'a client \<Rightarrow> int \<Rightarrow> int \<Rightarrow> 'a search_state \<Rightarrow> 'a search_state \<times> stop option" where
  "loop_body client result_count max_results s =
    (let response = client (length (requests s)) max_results (pagination_token s);
         s1 = s\<lparr>requests := requests s @ [pagination_token s]\<rparr>
     in case meta_next_token response of
          Missing \<Rightarrow> (s1, Some CannotExtractToken)
        | Token next_token \<Rightarrow>
           (case response_data response of
              NoDataAttr \<Rightarrow> (s1, Some CannotExtractResult)
            | DataNone \<Rightarrow> (s1, Some (Uncaught TypeError))
            | Results rs \<Rightarrow>
               (let ys = yield_page rs next_token;
                    s2 = s1\<lparr>yielded := yielded s1 @ ys, count := count s1 + int (length ys)\<rparr>
                in if \<not> readable rs then (s2, Some CannotExtractResult)
                   else if next_token = pagination_token s2 then (s2, Some NoMoreData)
                   else if next_token \<in> pagination_tokens s2 then (s2, Some TokenAlreadyCollected)
                   else let s3 = s2\<lparr>pagination_token := next_token\<rparr>
                        in if pagination_token s3 = None then (s3, Some TokenIsNone)
                           else let s4 = s3\<lparr>pagination_tokens :=
                                               insert (pagination_token s3) (pagination_tokens s3)\<rparr>
                                in if count s4 \<ge> result_count then (s4, Some CountReached)
                                   else (s4, None))))"

text \<open>
  \<^verbatim>\<open>while True\<close> may run forever, so the loop takes fuel: the number of page requests it
  may still make. With no fuel left the run is returned as it stands, \<open>stopped = None\<close>.
\<close>

fun search_loop :: "nat \<Rightarrow> 'a client \<Rightarrow> int \<Rightarrow> int \<Rightarrow> 'a search_state \<Rightarrow> 'a run" where
  "search_loop 0 client result_count max_results s = \<lparr>final = s, stopped = None\<rparr>"
| "search_loop (Suc fuel) client result_count max_results s =
    (case loop_body client result_count max_results s of
       (s', Some reason) \<Rightarrow> \<lparr>final = s', stopped = Some reason\<rparr>
     | (s', None) \<Rightarrow> search_loop fuel client result_count max_results s')"

definition initial_state :: "'a search_state" where
  "initial_state =
    \<lparr>pagination_token = None, count = 0, pagination_tokens = {}, yielded = [], requests = []\<rparr>"

definition search_tweets :: "nat \<Rightarrow> 'a client \<Rightarrow> int \<Rightarrow> 'a run" where
  "search_tweets fuel client result_count =
    search_loop fuel client result_count (min 100 result_count) initial_state"

subsection \<open>Notions the properties of the loop are stated with\<close>

text \<open>\<open>ceil_div a b\<close> is the ceiling of \<open>a / b\<close> for a positive \<open>b\<close>.\<close>

definition ceil_div :: "int \<Rightarrow> int \<Rightarrow> int" where
  "ceil_div a b = - ((- a) div b)"

text \<open>The run has stopped by the time it has made \<open>n\<close> page requests.\<close>

definition stops_within :: "nat \<Rightarrow> 'a client \<Rightarrow> int \<Rightarrow> bool" where
  "stops_within n client result_count =
    (let r = search_tweets n client result_count
     in stopped r \<noteq> None \<and> length (requests (final r)) \<le> n)"

text \<open>Every page the upstream returns holds at least, or at most, \<open>m\<close> results.\<close>

definition pages_at_least :: "int \<Rightarrow> 'a client \<Rightarrow> int \<Rightarrow> bool" where
  "pages_at_least m client max_results =
    (\<forall>n token. case response_data (client n max_results token) of
        Results rs \<Rightarrow> m \<le> int (length rs) | _ \<Rightarrow> True)"

definition pages_at_most :: "int \<Rightarrow> 'a client \<Rightarrow> int \<Rightarrow> bool" where
  "pages_at_most m client max_results =
    (\<forall>n token. case response_data (client n max_results token) of
        Results rs \<Rightarrow> int (length rs) \<le> m | _ \<Rightarrow> True)"

text \<open>What one response makes the generator yield.\<close>

definition page_items :: "'a response \<Rightarrow> ('a \<times> string option) list" where
  "page_items response =
    (case meta_next_token response of
       Missing \<Rightarrow> []
     | Token next_token \<Rightarrow>
        (case response_data response of Results rs \<Rightarrow> yield_page rs next_token | _ \<Rightarrow> []))"

text \<open>The invariants of the loop head: on the cursors, and on the count.\<close>

definition cursor_inv :: "'a search_state \<Rightarrow> bool" where
  "cursor_inv s \<longleftrightarrow>
     distinct (requests s) \<and>
     pagination_token s \<notin> set (requests s) \<and>
     set (requests s) \<subseteq> insert None (pagination_tokens s) \<and>
     (pagination_token s = None \<longrightarrow> requests s = []) \<and>
     (pagination_token s \<noteq> None \<longrightarrow> pagination_token s \<in> pagination_tokens s) \<and>
     None \<notin> pagination_tokens s"

definition count_inv :: "int \<Rightarrow> 'a search_state \<Rightarrow> bool" where
  "count_inv result_count s \<longleftrightarrow> count s = int (length (yielded s)) \<and> count s < result_count"

subsection \<open>Upstreams to run the loop on\<close>

text \<open>
  \<open>fresh_pages k\<close> answers every call with \<open>k\<close> tweets and a cursor it has not given
  before; \<open>same_cursor\<close> gives the cursor \<^verbatim>\<open>A\<close> every time; \<open>last_page\<close> has no
  \<^verbatim>\<open>next_token\<close> key in its \<^verbatim>\<open>meta\<close>; \<open>null_cursor\<close> has the key, holding \<^verbatim>\<open>None\<close>.
\<close>

definition fresh_pages :: "nat \<Rightarrow> nat client" where
  "fresh_pages k n max_results token =
    \<lparr>meta_next_token = Token (Some (replicate (Suc n) CHR ''a'')),
     response_data = Results (replicate k (Data n))\<rparr>"

definition same_cursor :: "nat client" where
  "same_cursor n max_results token =
    \<lparr>meta_next_token = Token (Some ''A''), response_data = Results [Data n]\<rparr>"

definition last_page :: "nat client" where
  "last_page n max_results token = \<lparr>meta_next_token = Missing, response_data = Results [Data n]\<rparr>"

definition null_cursor :: "nat client" where
  "null_cursor n max_results token =
    \<lparr>meta_next_token = Token None, response_data = Results [Data n, Data (Suc n)]\<rparr>"

section \<open>The aggregation engine: \<^verbatim>\<open>process_results\<close> and \<^verbatim>\<open>group_dataframe\<close>\<close>

subsection \<open>The record log\<close>

text \<open>
  A line of \<^verbatim>\<open>text_tweets.txt\<close> is what \<^verbatim>\<open>json.loads\<close> makes of it: a
  \<^verbatim>\<open>JSONDecodeError\<close> (\<open>Unparsable\<close>) or a tweet object. The tweet objects are typed as
  the Twitter API writes them: \<^verbatim>\<open>id\<close>, \<^verbatim>\<open>created_at\<close>, \<^verbatim>\<open>username\<close>,
  \<^verbatim>\<open>normalized_text\<close> and \<^verbatim>\<open>type\<close> are strings, \<^verbatim>\<open>entities\<close> is an object,
  \<^verbatim>\<open>annotations\<close> and \<^verbatim>\<open>mentions\<close> are lists of objects. Every key may be absent
  (\<open>None\<close>); what the source does then is in \<open>read_row\<close>. Strings are compared as Python
  compares them, character by character.
\<close>

record annotation =
  a_type :: "string option"
  a_normalized_text :: "string option"

record mention =
  m_username :: "string option"

record entities =
  e_annotations :: "annotation list option"
  e_mentions :: "mention list option"

record tweet =
  t_id :: "string option"
  t_created_at :: "string option"
  t_entities :: "entities option"

datatype log_line = Unparsable | Parsed tweet

subsection \<open>Reading the log\<close>

text \<open>\<^verbatim>\<open>d.get(key, default)\<close>, given what the key holds.\<close>

definition dict_get :: "'a option \<Rightarrow> 'a \<Rightarrow> 'a" where
  "dict_get v fallback = (case v of None \<Rightarrow> fallback | Some x \<Rightarrow> x)"

text \<open>
  The dictionaries appended to \<^verbatim>\<open>all_annotations\<close> and \<^verbatim>\<open>all_mentions\<close>. A cell is
  \<open>None\<close> for Python's \<^verbatim>\<open>None\<close>, which only \<^verbatim>\<open>annotation.get("type")\<close> can give.
\<close>

type_synonym row = "(string \<times> string option) list"

definition annotation_row :: "string \<Rightarrow> string \<Rightarrow> annotation \<Rightarrow> row" where
  "annotation_row tweet_created_at tweet_id annotation =
    [(''normalized_text'', Some (dict_get (a_normalized_text annotation) [])),
     (''annotation_type'', a_type annotation),
     (''tweet_created_at'', Some tweet_created_at),
     (''tweet_id'', Some tweet_id)]"

definition mention_row :: "string \<Rightarrow> string \<Rightarrow> mention \<Rightarrow> row" where
  "mention_row tweet_created_at tweet_id mention =
    [(''username'', Some (dict_get (m_username mention) [])),
     (''tweet_created_at'', Some tweet_created_at),
     (''tweet_id'', Some tweet_id)]"

text \<open>
  The body of \<^verbatim>\<open>for row in file.readlines()\<close>, in the order of the source:
  \<^verbatim>\<open>json.loads(row)\<close>, \<^verbatim>\<open>data.get("entities")\<close>, \<^verbatim>\<open>data["created_at"]\<close>,
  \<^verbatim>\<open>data["id"]\<close>, then \<^verbatim>\<open>entities.get("annotations", [])\<close>, which raises
  \<^verbatim>\<open>AttributeError\<close> when \<^verbatim>\<open>entities\<close> is \<^verbatim>\<open>None\<close>.
\<close>

definition read_row ::
  "log_line \<Rightarrow> row list \<times> row list \<Rightarrow> py_exception + (row list \<times> row list)" where
  "read_row line acc =
    (case acc of (all_mentions, all_annotations) \<Rightarrow>
     case line of
       Unparsable \<Rightarrow> Inl JSONDecodeError
     | Parsed data \<Rightarrow>
        (case t_created_at data of
           None \<Rightarrow> Inl KeyError
         | Some tweet_created_at \<Rightarrow>
            (case t_id data of
               None \<Rightarrow> Inl KeyError
             | Some tweet_id \<Rightarrow>
                (case t_entities data of
                   None \<Rightarrow> Inl AttributeError
                 | Some entities \<Rightarrow>
                    (let annotations = dict_get (e_annotations entities) [];
                         all_annotations =
                           (if annotations \<noteq> []
                            then all_annotations @
                                   map (annotation_row tweet_created_at tweet_id) annotations
                            else all_annotations);
                         mentions = dict_get (e_mentions entities) [];
                         all_mentions =
                           (if mentions \<noteq> []
                            then all_mentions @ map (mention_row tweet_created_at tweet_id) mentions
                            else all_mentions)
                     in Inr (all_mentions, all_annotations))))))"

fun read_rows ::
  "log_line list \<Rightarrow> row list \<times> row list \<Rightarrow> py_exception + (row list \<times> row list)" where
  "read_rows [] acc = Inr acc"
| "read_rows (line # lines) acc =
    (case read_row line acc of Inl e \<Rightarrow> Inl e | Inr acc' \<Rightarrow> read_rows lines acc')"

subsection \<open>The pandas operations the source calls\<close>

text \<open>
  \<^verbatim>\<open>pd.DataFrame(list_of_dicts)\<close>: the columns are the keys of the dictionaries, in the
  order they first appear, so the frame of an empty list has no column.
\<close>

record dataframe =
  columns :: "string list"
  rows :: "row list"

definition DataFrame :: "row list \<Rightarrow> dataframe" where
  "DataFrame ds = \<lparr>columns = rev (remdups (rev (concat (map (map fst) ds)))), rows = ds\<rparr>"

text \<open>A cell of a row; a row without the column has a null there, as \<^verbatim>\<open>None\<close> is one.\<close>

definition cell :: "row \<Rightarrow> string \<Rightarrow> string option" where
  "cell d column = (case map_of d column of Some v \<Rightarrow> v | None \<Rightarrow> None)"

text \<open>
  The aggregated frame: its index is the grouping key, its columns are \<^verbatim>\<open>count\<close>,
  \<^verbatim>\<open>last_tweeted_at\<close> and \<^verbatim>\<open>last_tweet_url\<close>.
\<close>

record summary_row =
  key :: string
  count_column :: nat
  last_tweeted_at :: "string option"
  last_tweet_url :: "string option"

text \<open>\<^verbatim>\<open>"count"\<close> counts the cells that are not null, \<^verbatim>\<open>"max"\<close> skips the nulls.\<close>

definition agg_count :: "string option list \<Rightarrow> nat" where
  "agg_count cells = length (filter (\<lambda>c. c \<noteq> None) cells)"

definition agg_max :: "string option list \<Rightarrow> string option" where
  "agg_max cells =
    (case List.map_filter (\<lambda>c. c) cells of [] \<Rightarrow> None | v # vs \<Rightarrow> Some (fold max vs v))"

text \<open>
  \<^verbatim>\<open>groupby(grouping_field)\<close> with its defaults: the keys are sorted, rows with a null
  key are dropped.
\<close>

definition groupby_keys :: "dataframe \<Rightarrow> string \<Rightarrow> string list" where
  "groupby_keys df grouping_field =
    sort (remdups (List.map_filter (\<lambda>d. cell d grouping_field) (rows df)))"

definition group_rows :: "dataframe \<Rightarrow> string \<Rightarrow> string \<Rightarrow> row list" where
  "group_rows df grouping_field k = filter (\<lambda>d. cell d grouping_field = Some k) (rows df)"

definition agg :: "dataframe \<Rightarrow> string \<Rightarrow> string \<Rightarrow> summary_row" where
  "agg df grouping_field k =
    (let group = group_rows df grouping_field k
     in \<lparr>key = k,
         count_column = agg_count (map (\<lambda>d. cell d grouping_field) group),
         last_tweeted_at = agg_max (map (\<lambda>d. cell d ''tweet_created_at'') group),
         last_tweet_url = agg_max (map (\<lambda>d. cell d ''tweet_id'') group)\<rparr>)"

text \<open>
  \<^verbatim>\<open>sort_values("count", ascending=False)\<close> puts the rows in descending order of
  \<^verbatim>\<open>count\<close>. pandas hands the column to numpy's quicksort, which is not stable: where
  it leaves rows with equal counts is a matter of that routine, not of this program. So
  the sorting routine is a parameter of the model, \<open>sort_values\<close>, and all that is
  assumed of it is the contract: it permutes the rows, and the result is in descending
  order of \<^verbatim>\<open>count\<close>.
\<close>

type_synonym sort_values = "summary_row list \<Rightarrow> summary_row list"

definition sort_values_contract :: "sort_values \<Rightarrow> bool" where
  "sort_values_contract sort_values \<longleftrightarrow>
    (\<forall>rs. (\<forall>r. count_list (sort_values rs) r = count_list rs r) \<and>
          sorted_wrt (\<lambda>a b. count_column b \<le> count_column a) (sort_values rs))"

text \<open>
  One routine that meets the contract, to run the model on examples: insertion sort. It
  is not numpy's, and nothing proved about the program depends on which routine is
  taken.
\<close>

definition insertion_sort_values :: sort_values where
  "insertion_sort_values rs = sort_key (\<lambda>r. - int (count_column r)) rs"

text \<open>The f-string of the \<^verbatim>\<open>map\<close>; a null is formatted as \<^verbatim>\<open>nan\<close>.\<close>

definition status_url :: "string option \<Rightarrow> string" where
  "status_url tweet_id =
    ''https://twitter.com/robotventures/status/'' @ dict_get tweet_id ''nan''"

subsection \<open>\<^verbatim>\<open>group_dataframe\<close>\<close>

text \<open>\<^verbatim>\<open>groupby\<close> and \<^verbatim>\<open>agg\<close> raise \<^verbatim>\<open>KeyError\<close> for a column the frame does not have.\<close>

definition group_dataframe ::
  "sort_values \<Rightarrow> dataframe \<Rightarrow> string \<Rightarrow> py_exception + summary_row list" where
  "group_dataframe sort_values df grouping_field =
    (if grouping_field \<notin> set (columns df) then Inl KeyError
     else if ''tweet_created_at'' \<notin> set (columns df) then Inl KeyError
     else if ''tweet_id'' \<notin> set (columns df) then Inl KeyError
     else Inr (map (\<lambda>r. r\<lparr>last_tweet_url := Some (status_url (last_tweet_url r))\<rparr>)
                (sort_values (map (agg df grouping_field) (groupby_keys df grouping_field)))))"

subsection \<open>\<^verbatim>\<open>process_results\<close>\<close>

text \<open>
  What \<^verbatim>\<open>to_csv\<close> writes: the header (the name of the index, then the columns) and one
  record for each row. How the records are quoted is a function of this table.
\<close>

record csv =
  header :: "string list"
  body :: "summary_row list"

definition to_csv :: "string \<Rightarrow> summary_row list \<Rightarrow> csv" where
  "to_csv index_name aggregation =
    \<lparr>header = [index_name, ''count'', ''last_tweeted_at'', ''last_tweet_url''],
     body = aggregation\<rparr>"

text \<open>
  The three files: \<^verbatim>\<open>DATAPATH\<close>, \<^verbatim>\<open>MENTION_PATH\<close> and \<^verbatim>\<open>ANNOTATION_PATH\<close>. \<open>None\<close>
  is a file that does not exist.
\<close>

record files =
  text_tweets_txt :: "log_line list option"
  mentions_csv :: "csv option"
  annotations_csv :: "csv option"

text \<open>
  The exception that ended the run, if any, and the files after it. \<open>sort_values\<close> is the
  sorting routine handed on to \<open>group_dataframe\<close>.
\<close>

definition process_results :: "sort_values \<Rightarrow> files \<Rightarrow> py_exception option \<times> files" where
  "process_results sort_values fs =
    (case text_tweets_txt fs of
       None \<Rightarrow> (Some FileNotFoundError, fs)
     | Some file \<Rightarrow>
        (case read_rows file ([], []) of
           Inl e \<Rightarrow> (Some e, fs)
         | Inr (all_mentions, all_annotations) \<Rightarrow>
            (case group_dataframe sort_values (DataFrame all_mentions) ''username'' of
               Inl e \<Rightarrow> (Some e, fs)
             | Inr mention_aggregation \<Rightarrow>
                (case group_dataframe sort_values (DataFrame all_annotations) ''normalized_text'' of
                   Inl e \<Rightarrow> (Some e, fs)
                 | Inr annotation_aggregation \<Rightarrow>
                    (None, fs\<lparr>mentions_csv := Some (to_csv ''username'' mention_aggregation),
                              annotations_csv :=
                                Some (to_csv ''normalized_text'' annotation_aggregation)\<rparr>)))))"

subsection \<open>Notions the properties of the aggregation are stated with\<close>

text \<open>\<open>m\<close> is the greatest of the cells that are not null.\<close>

definition is_max :: "string \<Rightarrow> string option list \<Rightarrow> bool" where
  "is_max m cells \<longleftrightarrow> Some m \<in> set cells \<and> (\<forall>v. Some v \<in> set cells \<longrightarrow> v \<le> m)"

text \<open>No row has a null in the three columns \<^verbatim>\<open>group_dataframe\<close> reads.\<close>

definition complete_rows :: "string \<Rightarrow> row list \<Rightarrow> bool" where
  "complete_rows grouping_field ds \<longleftrightarrow>
    (\<forall>d \<in> set ds. cell d grouping_field \<noteq> None \<and> cell d ''tweet_created_at'' \<noteq> None \<and>
                   cell d ''tweet_id'' \<noteq> None)"

subsection \<open>Logs to run the aggregation on\<close>

definition example_entities :: entities where
  "example_entities =
    \<lparr>e_annotations = Some [\<lparr>a_type = Some ''Other'', a_normalized_text = Some ''rust''\<rparr>,
                            \<lparr>a_type = None, a_normalized_text = None\<rparr>],
     e_mentions = Some [\<lparr>m_username = Some ''alice''\<rparr>, \<lparr>m_username = None\<rparr>]\<rparr>"

definition example_tweet :: tweet where
  "example_tweet =
    \<lparr>t_id = Some ''20'', t_created_at = Some ''2022-01-02T10:00:00.000Z'',
     t_entities = Some example_entities\<rparr>"

definition example_log :: "log_line list" where
  "example_log =
    [Parsed \<lparr>t_id = Some ''10'', t_created_at = Some ''2022-01-01T10:00:00.000Z'',
       t_entities = Some \<lparr>e_annotations = None,
                          e_mentions = Some [\<lparr>m_username = Some ''alice''\<rparr>]\<rparr>\<rparr>,
     Parsed example_tweet,
     Parsed \<lparr>t_id = Some ''30'', t_created_at = Some ''2022-01-03T10:00:00.000Z'',
       t_entities = Some \<lparr>e_annotations = None, e_mentions = None\<rparr>\<rparr>]"


definition example_mentions :: "row list" where
  "example_mentions =
    [mention_row ''2022-01-01T10:00:00.000Z'' ''10'' \<lparr>m_username = Some ''alice''\<rparr>,
     mention_row ''2022-01-02T10:00:00.000Z'' ''20'' \<lparr>m_username = Some ''alice''\<rparr>,
     mention_row ''2022-01-02T10:00:00.000Z'' ''20'' \<lparr>m_username = None\<rparr>]"

text \<open>
  Two mentions of one account: in a tweet of May 2018, whose id has 18 digits, and in a
  tweet of January 2022, whose id has 19.
\<close>

definition recency_mentions :: "row list" where
  "recency_mentions =
    [mention_row ''2018-05-20T10:00:00.000Z'' ''998000000000000000''
       \<lparr>m_username = Some ''alice''\<rparr>,
     mention_row ''2022-01-03T10:00:00.000Z'' ''1477950000000000000''
       \<lparr>m_username = Some ''alice''\<rparr>]"

text \<open>The log those two rows are read from; each tweet has an annotation too.\<close>

definition recency_files :: files where
  "recency_files =
    \<lparr>text_tweets_txt = Some
       [Parsed \<lparr>t_id = Some ''998000000000000000'',
                t_created_at = Some ''2018-05-20T10:00:00.000Z'',
                t_entities = Some
                  \<lparr>e_annotations =
                     Some [\<lparr>a_type = Some ''Other'', a_normalized_text = Some ''rust''\<rparr>],
                   e_mentions = Some [\<lparr>m_username = Some ''alice''\<rparr>]\<rparr>\<rparr>,
        Parsed \<lparr>t_id = Some ''1477950000000000000'',
                t_created_at = Some ''2022-01-03T10:00:00.000Z'',
                t_entities = Some
                  \<lparr>e_annotations =
                     Some [\<lparr>a_type = Some ''Other'', a_normalized_text = Some ''rust''\<rparr>],
                   e_mentions = Some [\<lparr>m_username = Some ''alice''\<rparr>]\<rparr>\<rparr>],
     mentions_csv = None, annotations_csv = None\<rparr>"

definition empty_log_files :: files where
  "empty_log_files = \<lparr>text_tweets_txt = Some [], mentions_csv = None, annotations_csv = None\<rparr>"

definition no_entities_files :: files where
  "no_entities_files =
    \<lparr>text_tweets_txt = Some
       [Parsed \<lparr>t_id = Some ''10'', t_created_at = Some ''2022-01-01T10:00:00.000Z'',
                t_entities = None\<rparr>],
     mentions_csv = None, annotations_csv = None\<rparr>"

definition malformed_files :: files where
  "malformed_files =
    \<lparr>text_tweets_txt = Some (example_log @ Unparsable # example_log),
     mentions_csv = None, annotations_csv = None\<rparr>"

section \<open>Properties of the pagination engine\<close>

subsection \<open>One page\<close>

lemma length_yield_page: "length (yield_page rs t) \<le> length rs"
  by (induction rs t rule: yield_page.induct) auto

lemma yield_page_readable: "readable rs \<Longrightarrow> length (yield_page rs t) = length rs"
  by (induction rs t rule: yield_page.induct) (auto simp: readable_def)

lemma yield_page_Data: "yield_page (map Data ds) t = map (\<lambda>d. (d, t)) ds"
  by (induction ds) auto

lemma readable_Data: "readable (map Data ds)"
  by (auto simp: readable_def)

subsection \<open>One pass through the loop\<close>

lemma loop_body_requests:
  "requests (fst (loop_body client rc mr s)) = requests s @ [pagination_token s]"
  by (simp add: loop_body_def Let_def split: next_token_field.splits data_field.splits)

lemma loop_body_yielded:
  "yielded (fst (loop_body client rc mr s)) =
     yielded s @ page_items (client (length (requests s)) mr (pagination_token s))"
  by (simp add: loop_body_def page_items_def Let_def
      split: next_token_field.splits data_field.splits)

lemma loop_body_count:
  "count (fst (loop_body client rc mr s)) =
     count s + int (length (page_items (client (length (requests s)) mr (pagination_token s))))"
  by (simp add: loop_body_def page_items_def Let_def
      split: next_token_field.splits data_field.splits)

lemma loop_body_continues:
  "snd (loop_body client rc mr s) = None \<Longrightarrow> count (fst (loop_body client rc mr s)) < rc"
  by (auto simp: loop_body_def Let_def
      split: next_token_field.splits data_field.splits if_splits)

lemma loop_body_continues_page:
  assumes "snd (loop_body client rc mr s) = None"
  shows "\<exists>rs. response_data (client (length (requests s)) mr (pagination_token s)) = Results rs \<and>
              count (fst (loop_body client rc mr s)) = count s + int (length rs)"
  using assms
  by (auto simp: loop_body_def Let_def yield_page_readable
      split: next_token_field.splits data_field.splits if_splits)

lemma loop_body_cursor_inv:
  assumes "cursor_inv s" and "loop_body client rc mr s = (s', r)"
  shows "distinct (requests s')"
    and "set (requests s') \<subseteq> insert None (pagination_tokens s')"
    and "r = None \<Longrightarrow> cursor_inv s'"
  using assms
  by (auto simp: loop_body_def Let_def cursor_inv_def
      split: next_token_field.splits data_field.splits if_splits)

subsection \<open>Fuel\<close>

text \<open>A run makes no more requests than it has fuel, and fuel it does not need changes nothing.\<close>

lemma search_loop_requests:
  "length (requests (final (search_loop n client rc mr s))) \<le> length (requests s) + n"
proof (induction n arbitrary: s)
  case 0
  show ?case by simp
next
  case (Suc n)
  obtain s' r where b: "loop_body client rc mr s = (s', r)" by (cases "loop_body client rc mr s")
  have l: "length (requests s') = Suc (length (requests s))"
    using loop_body_requests [of client rc mr s] b by simp
  show ?case
  proof (cases r)
    case None
    then show ?thesis using b l Suc.IH [of s'] by simp
  next
    case (Some a)
    then show ?thesis using b l by simp
  qed
qed

lemma search_loop_fuel_mono:
  "stopped (search_loop n client rc mr s) \<noteq> None \<Longrightarrow>
   search_loop (n + k) client rc mr s = search_loop n client rc mr s"
proof (induction n arbitrary: s)
  case 0
  then show ?case by simp
next
  case (Suc n)
  obtain s' r where b: "loop_body client rc mr s = (s', r)" by (cases "loop_body client rc mr s")
  show ?case
  proof (cases r)
    case None
    then show ?thesis using b Suc.prems Suc.IH [of s'] by simp
  next
    case (Some a)
    then show ?thesis using b by simp
  qed
qed

subsection \<open>The cursors\<close>

lemma cursor_inv_initial: "cursor_inv initial_state"
  by (simp add: cursor_inv_def initial_state_def)

lemma search_loop_cursor_inv:
  assumes "cursor_inv s"
  shows "distinct (requests (final (search_loop n client rc mr s))) \<and>
         set (requests (final (search_loop n client rc mr s))) \<subseteq>
           insert None (pagination_tokens (final (search_loop n client rc mr s))) \<and>
         (stopped (search_loop n client rc mr s) = None \<longrightarrow>
           cursor_inv (final (search_loop n client rc mr s)))"
  using assms
proof (induction n arbitrary: s)
  case 0
  then show ?case by (simp add: cursor_inv_def)
next
  case (Suc n)
  obtain s' r where b: "loop_body client rc mr s = (s', r)" by (cases "loop_body client rc mr s")
  note inv = loop_body_cursor_inv [OF Suc.prems b]
  show ?case
  proof (cases r)
    case None
    then show ?thesis using b inv(3) Suc.IH [of s'] by simp
  next
    case (Some a)
    then show ?thesis using b inv(1,2) by simp
  qed
qed

text \<open>\<^verbatim>\<open>None\<close> is never added to \<^verbatim>\<open>pagination_tokens\<close>.\<close>

lemma search_tweets_None_not_collected:
  "stopped (search_tweets n client result_count) = None \<Longrightarrow>
   None \<notin> pagination_tokens (final (search_tweets n client result_count))"
  using search_loop_cursor_inv [OF cursor_inv_initial, of n client result_count "min 100 result_count"]
  unfolding search_tweets_def cursor_inv_def by blast

text \<open>
  C5. Whatever the upstream answers and however far the run has got (\<open>n\<close> requests, or
  stopped before), no cursor was used for two of its requests; every cursor a request
  was made with, other than the initial \<^verbatim>\<open>None\<close>, is in \<^verbatim>\<open>pagination_tokens\<close>; and
  while the run goes on, the cursor of the next request has not been used yet and is
  the initial \<^verbatim>\<open>None\<close> (before the first request) or already recorded in
  \<^verbatim>\<open>pagination_tokens\<close>.
\<close>

theorem search_tweets_no_cursor_twice:
  "distinct (requests (final (search_tweets n client result_count))) \<and>
   (\<forall>c \<in> set (requests (final (search_tweets n client result_count))).
      c = None \<or> c \<in> pagination_tokens (final (search_tweets n client result_count))) \<and>
   (stopped (search_tweets n client result_count) = None \<longrightarrow>
      pagination_token (final (search_tweets n client result_count))
        \<notin> set (requests (final (search_tweets n client result_count))) \<and>
      (pagination_token (final (search_tweets n client result_count)) = None \<and>
         requests (final (search_tweets n client result_count)) = [] \<or>
       pagination_token (final (search_tweets n client result_count))
         \<in> pagination_tokens (final (search_tweets n client result_count))))"
  using search_loop_cursor_inv [OF cursor_inv_initial, of n client result_count "min 100 result_count"]
  unfolding search_tweets_def cursor_inv_def by blast

theorem search_tweets_no_cursor_twice_witness:
  "stopped (search_tweets 2 (fresh_pages 1) 3) = None \<and>
   requests (final (search_tweets 2 (fresh_pages 1) 3)) = [None, Some ''a''] \<and>
   distinct (requests (final (search_tweets 2 (fresh_pages 1) 3))) \<and>
   pagination_token (final (search_tweets 2 (fresh_pages 1) 3))
     \<in> pagination_tokens (final (search_tweets 2 (fresh_pages 1) 3))"
proof -
  have run: "stopped (search_tweets 2 (fresh_pages 1) 3) = None"
    "requests (final (search_tweets 2 (fresh_pages 1) 3)) = [None, Some ''a'']"
    by code_simp+
  show ?thesis
    using search_tweets_no_cursor_twice [of 2 "fresh_pages 1" 3] run by simp
qed

subsection \<open>The number of items\<close>

lemma pages_at_most_items:
  assumes "pages_at_most m client mr" and "0 \<le> m"
  shows "int (length (page_items (client n mr c))) \<le> m"
proof (cases "response_data (client n mr c)")
  case (Results rs)
  have "case response_data (client n mr c) of Results rs \<Rightarrow> int (length rs) \<le> m | _ \<Rightarrow> True"
    using assms(1) unfolding pages_at_most_def by blast
  then have "int (length rs) \<le> m"
    using Results by simp
  moreover have "int (length (yield_page rs t)) \<le> int (length rs)" for t
    using length_yield_page [of rs t] by simp
  ultimately have "int (length (yield_page rs t)) \<le> m" for t
    using order_trans by blast
  then show ?thesis
    using assms(2) Results by (simp add: page_items_def split: next_token_field.splits)
qed (use assms(2) in \<open>simp_all add: page_items_def split: next_token_field.splits\<close>)

lemma search_loop_count_inv:
  assumes "count_inv rc s" and "0 \<le> m" and "pages_at_most m client mr"
  shows "int (length (yielded (final (search_loop n client rc mr s)))) \<le> rc + m - 1"
  using assms(1)
proof (induction n arbitrary: s)
  case 0
  then show ?case using assms(2) by (simp add: count_inv_def)
next
  case (Suc n)
  let ?items = "page_items (client (length (requests s)) mr (pagination_token s))"
  obtain s' r where b: "loop_body client rc mr s = (s', r)" by (cases "loop_body client rc mr s")
  have y: "yielded s' = yielded s @ ?items"
    using loop_body_yielded [of client rc mr s] b by simp
  have c: "count s' = count s + int (length ?items)"
    using loop_body_count [of client rc mr s] b by simp
  have le: "int (length ?items) \<le> m"
    by (rule pages_at_most_items [OF assms(3,2)])
  have bound: "int (length (yielded s')) \<le> rc + m - 1"
    using y le Suc.prems by (simp add: count_inv_def)
  show ?case
  proof (cases r)
    case None
    have "count s' < rc" using loop_body_continues [of client rc mr s] b None by simp
    then have "count_inv rc s'" using y c Suc.prems by (simp add: count_inv_def)
    then show ?thesis using b None Suc.IH [of s'] by simp
  next
    case (Some a)
    then show ?thesis using b bound by simp
  qed
qed

lemma pages_at_most_fresh_pages: "int k \<le> m \<Longrightarrow> pages_at_most m (fresh_pages k) max_results"
  by (simp add: pages_at_most_def fresh_pages_def)

text \<open>
  C6, as the source has it. The loop yields whatever a page holds: nothing in it cuts a
  page to \<^verbatim>\<open>max_results\<close>. For every \<^verbatim>\<open>result_count\<close> of at least 1 and every upstream
  whose pages hold no more than the page size asked for, \<open>min 100 result_count\<close>, the
  generator has at no moment of the run (after any number \<open>n\<close> of requests, stopped or
  not) yielded more than \<open>result_count + min 100 result_count - 1\<close> items.
\<close>

theorem search_tweets_yield_bound:
  assumes "1 \<le> result_count"
    and "pages_at_most (min 100 result_count) client (min 100 result_count)"
  shows "int (length (yielded (final (search_tweets n client result_count))))
           \<le> result_count + min 100 result_count - 1"
proof -
  have "count_inv result_count (initial_state :: 'a search_state)"
    using assms(1) by (simp add: count_inv_def initial_state_def)
  moreover have "0 \<le> min 100 result_count" using assms(1) by simp
  ultimately show ?thesis
    unfolding search_tweets_def using assms(2) by (rule search_loop_count_inv)
qed

theorem search_tweets_yield_bound_witness:
  "(1::int) \<le> 4 \<and> pages_at_most (min 100 4) (fresh_pages 3) (min 100 4) \<and>
   length (yielded (final (search_tweets 5 (fresh_pages 3) 4))) = 6 \<and>
   int (length (yielded (final (search_tweets 5 (fresh_pages 3) 4)))) \<le> 4 + min 100 4 - 1"
proof -
  have h: "pages_at_most (min 100 4) (fresh_pages 3) (min 100 4)"
    by (rule pages_at_most_fresh_pages) simp
  have l: "length (yielded (final (search_tweets 5 (fresh_pages 3) 4))) = 6" by code_simp
  show ?thesis
    using search_tweets_yield_bound [of 4 "fresh_pages 3" 5] h l by simp
qed

text \<open>
  C6, as the claim has it, fails for an upstream that returns more than it was asked
  for. With \<^verbatim>\<open>result_count = 1\<close> the page size is 1 and the bound is \<open>1 + 1 - 1 = 1\<close>
  item; a first page of three tweets is yielded whole.
\<close>

theorem search_tweets_oversize_page_counterexample:
  "length (yielded (final (search_tweets 1 (fresh_pages 3) 1))) = 3 \<and>
   \<not> int (length (yielded (final (search_tweets 1 (fresh_pages 3) 1)))) \<le> 1 + min 100 1 - 1 \<and>
   \<not> pages_at_most (min 100 1) (fresh_pages 3) (min 100 1)"
proof -
  have l: "length (yielded (final (search_tweets 1 (fresh_pages 3) 1))) = 3" by code_simp
  have "case response_data (fresh_pages 3 0 (min 100 1) None) of
          Results rs \<Rightarrow> \<not> int (length rs) \<le> min 100 1 | _ \<Rightarrow> False"
    by (simp add: fresh_pages_def)
  then have "\<not> pages_at_most (min 100 1) (fresh_pages 3) (min 100 1)"
    unfolding pages_at_most_def by (auto simp: fresh_pages_def)
  then show ?thesis using l by simp
qed

subsection \<open>Termination\<close>

lemma pages_at_least_page:
  assumes "pages_at_least m client mr" and "response_data (client n mr c) = Results rs"
  shows "m \<le> int (length rs)"
proof -
  have "case response_data (client n mr c) of Results rs \<Rightarrow> m \<le> int (length rs) | _ \<Rightarrow> True"
    using assms(1) unfolding pages_at_least_def by blast
  then show ?thesis using assms(2) by simp
qed

text \<open>
  When every page holds at least \<open>m\<close> results, each pass that does not stop adds \<open>m\<close> to
  \<^verbatim>\<open>count\<close>, so the check \<^verbatim>\<open>count >= result_count\<close> ends the loop once the fuel times
  \<open>m\<close> covers what is missing.
\<close>

lemma search_loop_stops:
  assumes "1 \<le> m" and "pages_at_least m client mr"
  shows "1 \<le> fuel \<Longrightarrow> rc \<le> int fuel * m + count s \<Longrightarrow>
         stopped (search_loop fuel client rc mr s) \<noteq> None"
proof (induction fuel arbitrary: s)
  case 0
  then show ?case by simp
next
  case (Suc f)
  obtain s' r where b: "loop_body client rc mr s = (s', r)" by (cases "loop_body client rc mr s")
  show ?case
  proof (cases r)
    case (Some a)
    then show ?thesis using b by simp
  next
    case None
    then have n: "snd (loop_body client rc mr s) = None" using b by simp
    obtain rs where rs:
        "response_data (client (length (requests s)) mr (pagination_token s)) = Results rs"
        "count s' = count s + int (length rs)"
      using loop_body_continues_page [OF n] b by auto
    have lt: "count s' < rc" using loop_body_continues [OF n] b by simp
    have ge: "count s + m \<le> count s'"
      using pages_at_least_page [OF assms(2) rs(1)] rs(2) by simp
    have "rc \<le> int f * m + m + count s" using Suc.prems(2) by (simp add: algebra_simps)
    then have le: "rc \<le> int f * m + count s'" using ge by linarith
    then have "0 < int f * m" using lt by linarith
    then have "1 \<le> f" using assms(1) by (cases f) auto
    then have "stopped (search_loop f client rc mr s') \<noteq> None" using le by (rule Suc.IH)
    then show ?thesis using b None by simp
  qed
qed

lemma ceil_div_mult: "0 < b \<Longrightarrow> a \<le> ceil_div a b * b"
proof -
  assume b: "0 < b"
  have "(- a) div b * b \<le> - a"
    using b by (metis div_mult_mod_eq le_add_same_cancel1 pos_mod_sign)
  then show ?thesis by (simp add: ceil_div_def)
qed

lemma stops_within_full_pages:
  assumes "1 \<le> m" and "pages_at_least m client (min 100 result_count)"
  shows "stops_within (nat (ceil_div result_count m) + 1) client result_count"
proof -
  let ?n = "nat (ceil_div result_count m) + 1"
  have "result_count \<le> ceil_div result_count m * m" using assms(1) by (simp add: ceil_div_mult)
  also have "\<dots> \<le> int (nat (ceil_div result_count m)) * m"
    using assms(1) by (simp add: mult_right_mono)
  also have "\<dots> \<le> int ?n * m" using assms(1) by (simp add: algebra_simps)
  finally have "result_count \<le> int ?n * m + count (initial_state :: 'a search_state)"
    by (simp add: initial_state_def)
  then have "stopped (search_loop ?n client result_count (min 100 result_count) initial_state)
               \<noteq> None"
    using search_loop_stops [OF assms, of ?n result_count initial_state] by simp
  moreover have "length (requests (final (search_loop ?n client result_count
       (min 100 result_count) (initial_state :: 'a search_state)))) \<le> ?n"
    using search_loop_requests [of ?n client result_count "min 100 result_count" initial_state]
    by (simp add: initial_state_def)
  ultimately show ?thesis by (simp add: stops_within_def search_tweets_def Let_def)
qed

lemma stops_within_repeated_cursor:
  assumes "\<And>n max_results token. meta_next_token (client n max_results token) = Token (Some t)"
  shows "stops_within 2 client result_count"
  using assms
  by (auto simp: stops_within_def search_tweets_def initial_state_def numeral_2_eq_2
      loop_body_def Let_def split: data_field.splits)

lemma stops_within_absent_cursor:
  assumes "meta_next_token (client 0 (min 100 result_count) None) = Missing \<or>
           meta_next_token (client 0 (min 100 result_count) None) = Token None"
  shows "stops_within 1 client result_count"
  using assms
  by (auto simp: stops_within_def search_tweets_def initial_state_def
      loop_body_def Let_def split: data_field.splits)

lemma pages_at_least_fresh_pages: "pages_at_least (int k) (fresh_pages k) max_results"
  by (simp add: pages_at_least_def fresh_pages_def)

text \<open>
  An upstream that hands out a new cursor with every empty page keeps the loop running
  for ever: whatever the fuel, the run has not stopped.
\<close>

lemma search_loop_empty_pages:
  assumes "count s < rc"
    and "\<forall>t \<in> insert (pagination_token s) (pagination_tokens s).
           case t of None \<Rightarrow> True | Some x \<Rightarrow> length x \<le> length (requests s)"
  shows "stopped (search_loop n (fresh_pages 0) rc mr s) = None"
  using assms
proof (induction n arbitrary: s)
  case 0
  show ?case by simp
next
  case (Suc n)
  let ?next = "Some (replicate (Suc (length (requests s))) CHR ''a'')"
  let ?s' = "s\<lparr>requests := requests s @ [pagination_token s], pagination_token := ?next,
               pagination_tokens := insert ?next (pagination_tokens s)\<rparr>"
  have new: "?next \<noteq> pagination_token s" "?next \<notin> pagination_tokens s"
    using Suc.prems(2) by (auto split: option.splits)
  have body: "loop_body (fresh_pages 0) rc mr s = (?s', None)"
    using new Suc.prems(1) by (simp add: loop_body_def fresh_pages_def readable_def Let_def)
  have "stopped (search_loop n (fresh_pages 0) rc mr ?s') = None"
  proof (rule Suc.IH)
    show "count ?s' < rc" using Suc.prems(1) by simp
    show "\<forall>t \<in> insert (pagination_token ?s') (pagination_tokens ?s').
           case t of None \<Rightarrow> True | Some x \<Rightarrow> length x \<le> length (requests ?s')"
      using Suc.prems(2) by (auto split: option.splits)
  qed
  then show ?case using body by simp
qed

lemma search_tweets_may_run_forever:
  "1 \<le> result_count \<Longrightarrow> stopped (search_tweets n (fresh_pages 0) result_count) = None"
  unfolding search_tweets_def
  by (rule search_loop_empty_pages) (simp_all add: initial_state_def)

text \<open>
  C1, as the source has it. The loop counts tweets, not requests, so the bound on the
  requests needs pages that are not short: when every page holds at least \<open>m \<ge> 1\<close>
  results, the run stops within \<open>ceil (result_count / m) + 1\<close> requests, which is the
  bound of the claim for full pages, \<open>m = min 100 result_count\<close>. An upstream that gives
  the same cursor every time is left after two requests at most, and one whose first
  response has no \<^verbatim>\<open>next_token\<close> key, or \<^verbatim>\<open>None\<close> under it, after one.
\<close>

theorem search_tweets_terminates:
  "(1 \<le> m \<and> pages_at_least m client (min 100 result_count) \<longrightarrow>
      stops_within (nat (ceil_div result_count m) + 1) client result_count) \<and>
   ((\<forall>n max_results token. meta_next_token (client n max_results token) = Token (Some t)) \<longrightarrow>
      stops_within 2 client result_count) \<and>
   (meta_next_token (client 0 (min 100 result_count) None) = Missing \<or>
    meta_next_token (client 0 (min 100 result_count) None) = Token None \<longrightarrow>
      stops_within 1 client result_count)"
  using stops_within_full_pages [of m client result_count]
    stops_within_repeated_cursor [of client t result_count]
    stops_within_absent_cursor [of client result_count]
  by blast

theorem search_tweets_terminates_witness:
  "pages_at_least 3 (fresh_pages 3) (min 100 7) \<and> stops_within 4 (fresh_pages 3) 7 \<and>
   stops_within 2 same_cursor 7 \<and> stops_within 1 last_page 7"
proof -
  have a: "(1::int) \<le> 3 \<and> pages_at_least 3 (fresh_pages 3) (min 100 7)"
    using pages_at_least_fresh_pages [of 3 "min 100 7"] by simp
  have b: "\<forall>n max_results token.
             meta_next_token (same_cursor n max_results token) = Token (Some ''A'')"
    by (simp add: same_cursor_def)
  have c: "meta_next_token (last_page 0 (min 100 7) None) = Missing"
    by (simp add: last_page_def)
  have n: "nat (ceil_div 7 3) + 1 = 4" by (simp add: ceil_div_def)
  show ?thesis
    using search_tweets_terminates [of 3 "fresh_pages 3" 7 "''A''"] a n
      search_tweets_terminates [of 3 same_cursor 7 "''A''"] b
      search_tweets_terminates [of 3 last_page 7 "''A''"] c
    by simp
qed

text \<open>
  C1, as the claim has it, fails on short pages. With \<^verbatim>\<open>result_count = 3\<close> the page size
  is 3 and the bound is \<open>ceil (3 / 3) + 1 = 2\<close> requests; an upstream that returns one
  tweet and a new cursor each time has been asked twice and the loop goes on to a third
  request.
\<close>

theorem search_tweets_short_pages_counterexample:
  "\<not> stops_within (nat (ceil_div 3 (min 100 3)) + 1) (fresh_pages 1) 3"
  by code_simp

lemma requests_short_pages:
  "requests (final (search_tweets 10 (fresh_pages 1) 3)) = [None, Some ''a'', Some ''aa''] \<and>
   stopped (search_tweets 10 (fresh_pages 1) 3) = Some CountReached"
  by code_simp

subsection \<open>The last page\<close>

text \<open>
  C4, as the source has it. The page answers the request the state \<open>s\<close> is about to
  make, and its results are all readable. When its \<^verbatim>\<open>next_token\<close> is there and is
  \<^verbatim>\<open>None\<close>, every item of the page is yielded with \<^verbatim>\<open>None\<close> stamped on it and the loop
  stops: at \<^verbatim>\<open>next_token == pagination_token\<close> on the first page, at
  \<^verbatim>\<open>pagination_token is None\<close> later. When \<^verbatim>\<open>meta\<close> has no \<^verbatim>\<open>next_token\<close> key, the
  \<^verbatim>\<open>KeyError\<close> is caught before the items are read: nothing of the page is yielded.
\<close>

theorem search_loop_last_page:
  assumes "client (length (requests s)) max_results (pagination_token s) =
             \<lparr>meta_next_token = tok, response_data = Results (map Data ds)\<rparr>"
  shows "(tok = Token None \<longrightarrow>
            yielded (final (search_loop (Suc fuel) client result_count max_results s))
              = yielded s @ map (\<lambda>d. (d, None)) ds \<and>
            stopped (search_loop (Suc fuel) client result_count max_results s)
              = Some (if pagination_token s = None then NoMoreData
                      else if None \<in> pagination_tokens s then TokenAlreadyCollected
                      else TokenIsNone)) \<and>
         (tok = Missing \<longrightarrow>
            yielded (final (search_loop (Suc fuel) client result_count max_results s)) = yielded s \<and>
            stopped (search_loop (Suc fuel) client result_count max_results s)
              = Some CannotExtractToken)"
  using assms
  by (simp add: loop_body_def Let_def yield_page_Data readable_Data)

theorem search_loop_last_page_witness:
  "yielded (final (search_tweets 3 null_cursor 10)) = [(0, None), (1, None)] \<and>
   stopped (search_tweets 3 null_cursor 10) = Some NoMoreData"
proof -
  have page: "null_cursor (length (requests (initial_state :: nat search_state))) (min 100 10)
          (pagination_token (initial_state :: nat search_state))
        = \<lparr>meta_next_token = Token None, response_data = Results (map Data [0, 1])\<rparr>"
    by (simp add: null_cursor_def initial_state_def)
  show ?thesis
    using search_loop_last_page [where client = null_cursor and s = initial_state
        and max_results = "min 100 10" and tok = "Token None" and ds = "[0, 1]"
        and fuel = 2 and result_count = 10, OF page]
    by (simp add: search_tweets_def initial_state_def numeral_3_eq_3)
qed

text \<open>
  C4, as the claim has it, fails when the field is absent from \<^verbatim>\<open>meta\<close>: the page of
  \<open>last_page\<close> holds a tweet, and the run yields nothing and stops at
  \<^verbatim>\<open>Cannot Extract token\<close>.
\<close>

theorem search_tweets_missing_token_counterexample:
  "yielded (final (search_tweets 3 last_page 10)) = [] \<and>
   stopped (search_tweets 3 last_page 10) = Some CannotExtractToken"
  by code_simp

section \<open>Properties of the aggregation engine\<close>

subsection \<open>Frames, cells and keys\<close>

lemma set_map_filter_eq: "set (List.map_filter f xs) = {y. \<exists>x \<in> set xs. f x = Some y}"
  by (induction xs) (auto simp: List.map_filter_simps split: option.splits)

lemma cell_in_keys: "cell d column = Some v \<Longrightarrow> column \<in> fst ` set d"
  by (auto simp: cell_def split: option.splits dest: map_of_SomeD intro: rev_image_eqI)

lemma set_columns_DataFrame: "set (columns (DataFrame ds)) = (\<Union>d \<in> set ds. fst ` set d)"
  by (simp add: DataFrame_def)

lemma rows_DataFrame: "rows (DataFrame ds) = ds"
  by (simp add: DataFrame_def)

lemma cell_column:
  "d \<in> set ds \<Longrightarrow> cell d column = Some v \<Longrightarrow> column \<in> set (columns (DataFrame ds))"
  using cell_in_keys [of d column v] by (auto simp: set_columns_DataFrame)

lemma set_groupby_keys:
  "set (groupby_keys df f) = {k. \<exists>d \<in> set (rows df). cell d f = Some k}"
  by (auto simp: groupby_keys_def set_map_filter_eq)

lemma distinct_groupby_keys: "distinct (groupby_keys df f)"
  by (simp add: groupby_keys_def)

subsection \<open>The aggregates\<close>

lemma map_filter_id_empty:
  "List.map_filter (\<lambda>c. c) cells = [] \<longleftrightarrow> (\<forall>c \<in> set cells. c = None)"
  by (induction cells) (auto simp: List.map_filter_simps split: option.splits)

lemma agg_max_None: "agg_max cells = None \<longleftrightarrow> (\<forall>c \<in> set cells. c = None)"
  using map_filter_id_empty [of cells]
  by (auto simp: agg_max_def split: list.splits)

lemma agg_max_Some:
  assumes "agg_max cells = Some m"
  shows "is_max m cells"
proof -
  obtain v vs where vs: "List.map_filter (\<lambda>c. c) cells = v # vs" and m: "m = fold max vs v"
    using assms by (auto simp: agg_max_def split: list.splits)
  have s: "set (v # vs) = {x. Some x \<in> set cells}"
    using arg_cong [OF vs, of set] by (auto simp: set_map_filter_eq)
  have "m = Max (set (v # vs))" unfolding m by (rule Max.set_eq_fold [symmetric])
  then have "m \<in> set (v # vs)" and "\<forall>x \<in> set (v # vs). x \<le> m"
    using Max_in [of "set (v # vs)"] Max_ge [of "set (v # vs)"] by auto
  then show ?thesis unfolding is_max_def s by auto
qed

lemma agg_max_complete:
  assumes "g \<noteq> []" and "\<forall>d \<in> set g. cell d c \<noteq> None"
  shows "\<exists>m. agg_max (map (\<lambda>d. cell d c) g) = Some m \<and> is_max m (map (\<lambda>d. cell d c) g)"
proof (cases "agg_max (map (\<lambda>d. cell d c) g)")
  case None
  then have "\<forall>d \<in> set g. cell d c = None" by (simp add: agg_max_None)
  then show ?thesis using assms by (cases g) auto
next
  case (Some m)
  then show ?thesis using agg_max_Some by blast
qed

lemma key_agg: "key (agg df f k) = k"
  by (simp add: agg_def Let_def)

lemma count_agg: "count_column (agg df f k) = length (group_rows df f k)"
proof -
  have "filter (\<lambda>c. c \<noteq> None) (map (\<lambda>d. cell d f) (group_rows df f k))
        = map (\<lambda>d. cell d f) (group_rows df f k)"
    by (rule filter_True) (auto simp: group_rows_def)
  then have "length (filter (\<lambda>c. c \<noteq> None) (map (\<lambda>d. cell d f) (group_rows df f k)))
             = length (group_rows df f k)"
    by (simp only: length_map)
  then show ?thesis by (simp only: agg_def Let_def agg_count_def summary_row.simps)
qed

subsection \<open>Sorting and summing\<close>

lemma contract_count_list:
  "sort_values_contract sv \<Longrightarrow> count_list (sv rs) r = count_list rs r"
  by (simp add: sort_values_contract_def)

lemma contract_sorted:
  "sort_values_contract sv \<Longrightarrow> sorted_wrt (\<lambda>a b. count_column b \<le> count_column a) (sv rs)"
  by (simp add: sort_values_contract_def)

lemma contract_set:
  assumes "sort_values_contract sv"
  shows "set (sv rs) = set rs"
proof -
  have "r \<in> set (sv rs) \<longleftrightarrow> r \<in> set rs" for r
    using contract_count_list [OF assms, of rs r]
      count_list_0_iff [of "sv rs" r] count_list_0_iff [of rs r]
    by simp
  then show ?thesis by blast
qed

lemma distinct_count_list: "distinct xs \<longleftrightarrow> (\<forall>x. count_list xs x \<le> 1)"
proof (induction xs)
  case Nil
  show ?case by simp
next
  case (Cons a xs)
  have "(\<forall>x. count_list (a # xs) x \<le> 1) \<longleftrightarrow> count_list xs a = 0 \<and> (\<forall>x. count_list xs x \<le> 1)"
  proof
    assume h: "\<forall>x. count_list (a # xs) x \<le> 1"
    have "count_list (a # xs) a \<le> 1" using h by blast
    then have "count_list xs a = 0" by simp
    moreover have "count_list xs x \<le> 1" for x
      using h [rule_format, of x] by (simp split: if_splits)
    ultimately show "count_list xs a = 0 \<and> (\<forall>x. count_list xs x \<le> 1)" by blast
  next
    assume "count_list xs a = 0 \<and> (\<forall>x. count_list xs x \<le> 1)"
    then show "\<forall>x. count_list (a # xs) x \<le> 1" by simp
  qed
  then show ?case using Cons.IH by (simp add: count_list_0_iff)
qed

lemma contract_distinct:
  assumes "sort_values_contract sv"
  shows "distinct (sv rs) \<longleftrightarrow> distinct rs"
  unfolding distinct_count_list
  by (simp add: contract_count_list [OF assms])

lemma contract_sum_list:
  assumes "sort_values_contract sv"
  shows "sum_list (map g (sv rs)) = sum_list (map (g :: summary_row \<Rightarrow> nat) rs)"
  unfolding sum_list_map_eq_sum_count
  by (simp add: contract_count_list [OF assms] contract_set [OF assms])

lemma contract_single:
  assumes "sort_values_contract sv"
  shows "sv [r] = [r]"
proof -
  have s: "set (sv [r]) = {r}" using contract_set [OF assms, of "[r]"] by simp
  have "length (sv [r]) = sum (count_list (sv [r])) (set (sv [r]))"
    by (simp add: sum_count_set)
  also have "\<dots> = 1" unfolding s using contract_count_list [OF assms, of "[r]" r] by simp
  finally have "length (sv [r]) = 1" .
  then obtain x where "sv [r] = [x]" by (cases "sv [r]") auto
  then show ?thesis using s by simp
qed

lemma count_list_insort_key:
  "count_list (insort_key f x xs) y = count_list (x # xs) y"
  by (induction xs) auto

lemma count_list_sort_key: "count_list (sort_key f xs) y = count_list xs y"
  by (induction xs) (auto simp: count_list_insort_key)

lemma insertion_sort_values_contract: "sort_values_contract insertion_sort_values"
proof -
  have "sorted_wrt (\<lambda>a b. count_column b \<le> count_column a) (insertion_sort_values rs)" for rs
  proof -
    have "sorted (map (\<lambda>r. - int (count_column r)) (insertion_sort_values rs))"
      unfolding insertion_sort_values_def by (rule sorted_sort_key)
    then show ?thesis by (simp add: sorted_map sorted_wrt_iff_nth_less)
  qed
  then show ?thesis
    by (simp add: sort_values_contract_def insertion_sort_values_def count_list_sort_key)
qed

lemma sum_group_sizes:
  assumes "distinct ks"
  shows "sum_list (map (\<lambda>k. length (filter (\<lambda>d. g d = Some k) xs)) ks)
         = length (filter (\<lambda>d. \<exists>k \<in> set ks. g d = Some k) xs)"
proof (induction xs)
  case Nil
  show ?case by simp
next
  case (Cons x xs)
  have "sum_list (map (\<lambda>k. length (filter (\<lambda>d. g d = Some k) (x # xs))) ks)
        = sum_list (map (\<lambda>k. (if g x = Some k then 1 else 0)
                                 + length (filter (\<lambda>d. g d = Some k) xs)) ks)"
    by (rule arg_cong [where f = sum_list], rule map_cong) auto
  also have "\<dots> = sum_list (map (\<lambda>k. if g x = Some k then 1 else 0) ks)
                   + sum_list (map (\<lambda>k. length (filter (\<lambda>d. g d = Some k) xs)) ks)"
    by (simp add: sum_list_addf)
  also have "sum_list (map (\<lambda>k. if g x = Some k then 1 else 0) ks)
             = (if \<exists>k \<in> set ks. g x = Some k then 1 else (0::nat))"
    using assms by (induction ks) auto
  finally show ?case using Cons.IH by simp
qed

subsection \<open>\<^verbatim>\<open>group_dataframe\<close>\<close>

lemma group_dataframe_Inr:
  assumes "group_dataframe sv df f = Inr out"
  shows "out = map (\<lambda>r. r\<lparr>last_tweet_url := Some (status_url (last_tweet_url r))\<rparr>)
                (sv (map (agg df f) (groupby_keys df f)))"
  using assms by (simp add: group_dataframe_def split: if_splits)

lemma set_group_dataframe:
  assumes "sort_values_contract sv" and "group_dataframe sv df f = Inr out"
  shows "set out =
           (\<lambda>k. (agg df f k)\<lparr>last_tweet_url := Some (status_url (last_tweet_url (agg df f k)))\<rparr>)
             ` {k. \<exists>d \<in> set (rows df). cell d f = Some k}"
  unfolding group_dataframe_Inr [OF assms(2)]
  by (simp add: contract_set [OF assms(1)] set_groupby_keys image_image)

lemma keys_group_dataframe:
  assumes "sort_values_contract sv" and "group_dataframe sv df f = Inr out"
  shows "set (map key out) = {k. \<exists>d \<in> set (rows df). cell d f = Some k}"
    and "distinct (map key out)"
proof -
  have k: "map key out = map key (sv (map (agg df f) (groupby_keys df f)))"
    unfolding group_dataframe_Inr [OF assms(2)] by (simp add: comp_def)
  show "set (map key out) = {k. \<exists>d \<in> set (rows df). cell d f = Some k}"
    unfolding k by (simp add: contract_set [OF assms(1)] image_image key_agg set_groupby_keys)
  have inj: "inj_on key (set (sv (map (agg df f) (groupby_keys df f))))"
    unfolding contract_set [OF assms(1)] by (auto simp: inj_on_def key_agg)
  have "distinct (map (agg df f) (groupby_keys df f))"
    by (simp add: distinct_map distinct_groupby_keys inj_on_def)
       (metis key_agg)
  then have "distinct (sv (map (agg df f) (groupby_keys df f)))"
    by (simp add: contract_distinct [OF assms(1)])
  then show "distinct (map key out)"
    unfolding k using inj by (simp add: distinct_map)
qed

lemma sorted_group_dataframe:
  assumes "sort_values_contract sv" and "group_dataframe sv df f = Inr out"
  shows "sorted_wrt (\<lambda>a b. count_column b \<le> count_column a) out"
  unfolding group_dataframe_Inr [OF assms(2)]
  using contract_sorted [OF assms(1), of "map (agg df f) (groupby_keys df f)"]
  by (simp add: sorted_wrt_map)

lemma sum_group_dataframe:
  assumes "sort_values_contract sv" and "group_dataframe sv df f = Inr out"
  shows "sum_list (map count_column out) = length (filter (\<lambda>d. cell d f \<noteq> None) (rows df))"
proof -
  have "sum_list (map count_column out)
        = sum_list (map count_column (sv (map (agg df f) (groupby_keys df f))))"
    unfolding group_dataframe_Inr [OF assms(2)] by (simp add: comp_def)
  also have "\<dots> = sum_list (map count_column (map (agg df f) (groupby_keys df f)))"
    by (rule contract_sum_list [OF assms(1)])
  also have "\<dots> = sum_list (map (\<lambda>k. length (filter (\<lambda>d. cell d f = Some k) (rows df)))
                               (groupby_keys df f))"
    by (simp add: comp_def count_agg group_rows_def)
  also have "\<dots> = length (filter (\<lambda>d. \<exists>k \<in> set (groupby_keys df f). cell d f = Some k) (rows df))"
    by (rule sum_group_sizes [OF distinct_groupby_keys])
  also have "\<dots> = length (filter (\<lambda>d. cell d f \<noteq> None) (rows df))"
    by (rule arg_cong [where f = length], rule filter_cong) (auto simp: set_groupby_keys)
  finally show ?thesis .
qed

lemma row_group_dataframe:
  assumes "sort_values_contract sv" and "group_dataframe sv df f = Inr out" and "r \<in> set out"
  shows "count_column r = length (group_rows df f (key r))"
    and "last_tweeted_at r =
           agg_max (map (\<lambda>d. cell d ''tweet_created_at'') (group_rows df f (key r)))"
    and "last_tweet_url r =
           Some (status_url (agg_max (map (\<lambda>d. cell d ''tweet_id'') (group_rows df f (key r)))))"
    and "group_rows df f (key r) \<noteq> []"
proof -
  obtain k d where k: "d \<in> set (rows df)" "cell d f = Some k"
    and r: "r = (agg df f k)\<lparr>last_tweet_url := Some (status_url (last_tweet_url (agg df f k)))\<rparr>"
    using assms(3) unfolding set_group_dataframe [OF assms(1,2)] by auto
  have kr: "key r = k" by (simp add: r key_agg)
  show "count_column r = length (group_rows df f (key r))"
    unfolding kr by (simp add: r count_agg)
  show "last_tweeted_at r =
          agg_max (map (\<lambda>d. cell d ''tweet_created_at'') (group_rows df f (key r)))"
    unfolding kr by (simp add: r agg_def Let_def)
  show "last_tweet_url r =
          Some (status_url (agg_max (map (\<lambda>d. cell d ''tweet_id'') (group_rows df f (key r)))))"
    unfolding kr by (simp add: r agg_def Let_def)
  show "group_rows df f (key r) \<noteq> []"
    unfolding kr using k by (auto simp: group_rows_def filter_empty_conv)
qed


lemma group_dataframe_succeeds:
  assumes "ds \<noteq> []" and "complete_rows f ds"
  shows "\<exists>out. group_dataframe sv (DataFrame ds) f = Inr out"
proof -
  obtain d where d: "d \<in> set ds" using assms(1) by (cases ds) auto
  then obtain a b c where "cell d f = Some a" "cell d ''tweet_created_at'' = Some b"
      "cell d ''tweet_id'' = Some c"
    using assms(2) unfolding complete_rows_def by fastforce
  then have "f \<in> set (columns (DataFrame ds))"
      "''tweet_created_at'' \<in> set (columns (DataFrame ds))"
      "''tweet_id'' \<in> set (columns (DataFrame ds))"
    using d cell_column by blast+
  then show ?thesis by (simp add: group_dataframe_def)
qed

text \<open>
  What \<^verbatim>\<open>group_dataframe\<close> does compute, for every non-empty list of occurrences (rows
  with a key, a \<^verbatim>\<open>tweet_created_at\<close> and a \<^verbatim>\<open>tweet_id\<close>) and every sorting routine that
  meets the contract: one row for each key that occurs; the \<^verbatim>\<open>count\<close> of a row is the
  number of occurrences of its key; the counts add up to the number of occurrences; the
  rows are in descending order of \<^verbatim>\<open>count\<close>; \<^verbatim>\<open>last_tweeted_at\<close> is the greatest
  \<^verbatim>\<open>tweet_created_at\<close> of the group and \<^verbatim>\<open>last_tweet_url\<close> the permalink of the
  greatest \<^verbatim>\<open>tweet_id\<close> of the group, both greatest in the order of strings, which for
  ids is not the order of the numbers they write.
\<close>

lemma group_dataframe_aggregates:
  assumes "sort_values_contract sv" and "ds \<noteq> []" and "complete_rows f ds"
  shows "\<exists>out. group_dataframe sv (DataFrame ds) f = Inr out \<and>
           set (map key out) = {k. \<exists>d \<in> set ds. cell d f = Some k} \<and>
           distinct (map key out) \<and>
           (\<forall>r \<in> set out.
              count_column r = length (filter (\<lambda>d. cell d f = Some (key r)) ds) \<and>
              (\<exists>t. last_tweeted_at r = Some t \<and>
                   is_max t (map (\<lambda>d. cell d ''tweet_created_at'')
                                 (filter (\<lambda>d. cell d f = Some (key r)) ds))) \<and>
              (\<exists>i. last_tweet_url r = Some (status_url (Some i)) \<and>
                   is_max i (map (\<lambda>d. cell d ''tweet_id'')
                                 (filter (\<lambda>d. cell d f = Some (key r)) ds)))) \<and>
           sum_list (map count_column out) = length ds \<and>
           sorted_wrt (\<lambda>a b. count_column b \<le> count_column a) out"
proof -
  let ?df = "DataFrame ds"
  obtain out where out: "group_dataframe sv ?df f = Inr out"
    using group_dataframe_succeeds [OF assms(2,3)] by blast
  have grp: "group_rows ?df f k = filter (\<lambda>d. cell d f = Some k) ds" for k
    by (simp add: group_rows_def rows_DataFrame)
  have keys: "set (map key out) = {k. \<exists>d \<in> set ds. cell d f = Some k}"
    using keys_group_dataframe(1) [OF assms(1) out] by (simp add: rows_DataFrame)
  have dist: "distinct (map key out)" by (rule keys_group_dataframe(2) [OF assms(1) out])
  have each: "\<forall>r \<in> set out.
              count_column r = length (filter (\<lambda>d. cell d f = Some (key r)) ds) \<and>
              (\<exists>t. last_tweeted_at r = Some t \<and>
                   is_max t (map (\<lambda>d. cell d ''tweet_created_at'')
                                 (filter (\<lambda>d. cell d f = Some (key r)) ds))) \<and>
              (\<exists>i. last_tweet_url r = Some (status_url (Some i)) \<and>
                   is_max i (map (\<lambda>d. cell d ''tweet_id'')
                                 (filter (\<lambda>d. cell d f = Some (key r)) ds)))"
  proof
    fix r assume r: "r \<in> set out"
    let ?g = "filter (\<lambda>d. cell d f = Some (key r)) ds"
    note facts = row_group_dataframe [OF assms(1) out r, unfolded grp]
    have ne: "?g \<noteq> []" by (rule facts(4))
    have c1: "\<forall>d \<in> set ?g. cell d ''tweet_created_at'' \<noteq> None"
      and c2: "\<forall>d \<in> set ?g. cell d ''tweet_id'' \<noteq> None"
      using assms(3) by (auto simp: complete_rows_def)
    obtain t where t: "agg_max (map (\<lambda>d. cell d ''tweet_created_at'') ?g) = Some t"
        "is_max t (map (\<lambda>d. cell d ''tweet_created_at'') ?g)"
      using agg_max_complete [OF ne c1] by blast
    obtain i where i: "agg_max (map (\<lambda>d. cell d ''tweet_id'') ?g) = Some i"
        "is_max i (map (\<lambda>d. cell d ''tweet_id'') ?g)"
      using agg_max_complete [OF ne c2] by blast
    show "count_column r = length ?g \<and>
          (\<exists>t. last_tweeted_at r = Some t \<and>
               is_max t (map (\<lambda>d. cell d ''tweet_created_at'') ?g)) \<and>
          (\<exists>i. last_tweet_url r = Some (status_url (Some i)) \<and>
               is_max i (map (\<lambda>d. cell d ''tweet_id'') ?g))"
      using facts(1,2,3) t i by auto
  qed
  have "filter (\<lambda>d. cell d f \<noteq> None) ds = ds"
    by (rule filter_True) (use assms(3) in \<open>auto simp: complete_rows_def\<close>)
  then have total: "sum_list (map count_column out) = length ds"
    using sum_group_dataframe [OF assms(1) out] by (simp add: rows_DataFrame)
  have srt: "sorted_wrt (\<lambda>a b. count_column b \<le> count_column a) out"
    by (rule sorted_group_dataframe [OF assms(1) out])
  show ?thesis using out keys dist each total srt by blast
qed

lemma group_dataframe_aggregates_example:
  "\<exists>out. group_dataframe insertion_sort_values (DataFrame example_mentions) ''username'' = Inr out \<and>
       map key out = [''alice'', []] \<and> map count_column out = [2, 1] \<and>
       sum_list (map count_column out) = length example_mentions"
proof -
  have ne: "example_mentions \<noteq> []" by (simp add: example_mentions_def)
  have c: "complete_rows ''username'' example_mentions"
    by (simp add: complete_rows_def example_mentions_def mention_row_def cell_def)
  have v: "map key (projr (group_dataframe insertion_sort_values
                             (DataFrame example_mentions) ''username''))
             = [''alice'', []]"
     "map count_column (projr (group_dataframe insertion_sort_values
                                 (DataFrame example_mentions) ''username''))
             = [2, 1]"
    by code_simp+
  show ?thesis
    using group_dataframe_aggregates [OF insertion_sort_values_contract ne c] v by auto
qed

text \<open>
  C7, on the source. The counts, their sum, \<^verbatim>\<open>last_tweeted_at\<close> and the order of the
  rows are as the claim says (above); \<^verbatim>\<open>last_tweet_url\<close> is not. The ids are strings,
  and \<^verbatim>\<open>"max"\<close> takes the greatest string: of the ids \<^verbatim>\<open>998000000000000000\<close> (18
  digits, May 2018) and \<^verbatim>\<open>1477950000000000000\<close> (19 digits, January 2022) it takes the
  first, since \<^verbatim>\<open>"9" > "1"\<close>. The row of the account has the date of the tweet of 2022
  and the permalink of the tweet of 2018, though 998000000000000000 is the smaller id.
  This holds whatever the sorting routine: the table has one row.
\<close>

theorem group_dataframe_last_tweet_url:
  assumes "sort_values_contract sv"
  shows "group_dataframe sv (DataFrame recency_mentions) ''username'' =
           Inr [\<lparr>key = ''alice'', count_column = 2,
                 last_tweeted_at = Some ''2022-01-03T10:00:00.000Z'',
                 last_tweet_url =
                   Some ''https://twitter.com/robotventures/status/998000000000000000''\<rparr>] \<and>
         (998000000000000000 :: nat) < 1477950000000000000"
proof -
  let ?df = "DataFrame recency_mentions"
  have cols: "''username'' \<in> set (columns ?df)" "''tweet_created_at'' \<in> set (columns ?df)"
    "''tweet_id'' \<in> set (columns ?df)"
    by code_simp+
  have rows: "map (agg ?df ''username'') (groupby_keys ?df ''username'') =
                [\<lparr>key = ''alice'', count_column = 2,
                  last_tweeted_at = Some ''2022-01-03T10:00:00.000Z'',
                  last_tweet_url = Some ''998000000000000000''\<rparr>]"
    by code_simp
  show ?thesis
    using cols
    by (simp add: group_dataframe_def rows contract_single [OF assms] status_url_def dict_get_def)
qed

theorem group_dataframe_last_tweet_url_witness:
  "group_dataframe insertion_sort_values (DataFrame recency_mentions) ''username'' =
     Inr [\<lparr>key = ''alice'', count_column = 2,
           last_tweeted_at = Some ''2022-01-03T10:00:00.000Z'',
           last_tweet_url =
             Some ''https://twitter.com/robotventures/status/998000000000000000''\<rparr>]"
  using group_dataframe_last_tweet_url [OF insertion_sort_values_contract] by simp

text \<open>The same from the log to the file written.\<close>

lemma process_results_last_tweet_url_example:
  "fst (process_results insertion_sort_values recency_files) = None \<and>
   map_option body (mentions_csv (snd (process_results insertion_sort_values recency_files))) =
     Some [\<lparr>key = ''alice'', count_column = 2,
            last_tweeted_at = Some ''2022-01-03T10:00:00.000Z'',
            last_tweet_url =
              Some ''https://twitter.com/robotventures/status/998000000000000000''\<rparr>]"
  by code_simp

subsection \<open>Reading the log\<close>

lemma read_rows_append:
  "read_rows (pre @ post) acc =
    (case read_rows pre acc of Inl e \<Rightarrow> Inl e | Inr acc' \<Rightarrow> read_rows post acc')"
  by (induction pre arbitrary: acc) (auto split: sum.splits)

lemma read_row_Unparsable: "read_row Unparsable acc = Inl JSONDecodeError"
  by (cases acc) (simp add: read_row_def)

lemma read_rows_Unparsable:
  "read_rows (pre @ Unparsable # post) acc =
    (case read_rows pre acc of Inl e \<Rightarrow> Inl e | Inr acc' \<Rightarrow> Inl JSONDecodeError)"
  by (simp add: read_rows_append read_row_Unparsable split: sum.splits)

lemma read_row_Parsed:
  assumes "t_created_at data = Some c" and "t_id data = Some i" and "t_entities data = Some ents"
  shows "read_row (Parsed data) (ms, as) =
           Inr (ms @ map (mention_row c i) (dict_get (e_mentions ents) []),
                as @ map (annotation_row c i) (dict_get (e_annotations ents) []))"
  using assms by (simp add: read_row_def Let_def)

lemma read_row_Inr:
  assumes "read_row line (ms, as) = Inr (ms', as')"
  shows "\<exists>data c i ents. line = Parsed data \<and> t_created_at data = Some c \<and> t_id data = Some i \<and>
           t_entities data = Some ents \<and>
           ms' = ms @ map (mention_row c i) (dict_get (e_mentions ents) []) \<and>
           as' = as @ map (annotation_row c i) (dict_get (e_annotations ents) [])"
proof (cases line)
  case Unparsable
  then show ?thesis using assms by (simp add: read_row_def)
next
  case (Parsed data)
  obtain c where c: "t_created_at data = Some c"
    using assms Parsed by (cases "t_created_at data") (simp_all add: read_row_def)
  obtain i where i: "t_id data = Some i"
    using assms Parsed c by (cases "t_id data") (simp_all add: read_row_def)
  obtain ents where ents: "t_entities data = Some ents"
    using assms Parsed c i by (cases "t_entities data") (simp_all add: read_row_def)
  show ?thesis
    using assms Parsed c i ents read_row_Parsed [OF c i ents, of ms as] by simp
qed



lemma read_rows_entities_present:
  "read_rows lines acc = Inr acc' \<Longrightarrow> Parsed data \<in> set lines \<Longrightarrow> t_entities data \<noteq> None"
proof (induction lines arbitrary: acc)
  case Nil
  then show ?case by simp
next
  case (Cons line lines)
  obtain ms as where acc: "acc = (ms, as)" by (cases acc)
  obtain acc1 where 1: "read_row line acc = Inr acc1" and 2: "read_rows lines acc1 = Inr acc'"
    using Cons.prems(1) by (auto split: sum.splits)
  obtain ms1 as1 where acc1: "acc1 = (ms1, as1)" by (cases acc1)
  show ?case
  proof (cases "line = Parsed data")
    case True
    then show ?thesis using read_row_Inr [OF 1 [unfolded acc acc1]] by auto
  next
    case False
    then have "Parsed data \<in> set lines" using Cons.prems(2) by simp
    then show ?thesis by (rule Cons.IH [OF 2])
  qed
qed

subsection \<open>\<^verbatim>\<open>process_results\<close>\<close>


lemma process_results_failure:
  "process_results sv fs = (Some e, fs') \<Longrightarrow> fs' = fs"
  by (auto simp: process_results_def split: option.splits sum.splits prod.splits)

text \<open>
  C2, on the source. A record without \<^verbatim>\<open>entities\<close> does not contribute nothing: it ends
  the run. \<^verbatim>\<open>data.get("entities")\<close> is \<^verbatim>\<open>None\<close> and \<^verbatim>\<open>entities.get("annotations", [])\<close>
  raises \<^verbatim>\<open>AttributeError\<close>; no file is written.
\<close>

theorem process_results_no_entities:
  "process_results sv no_entities_files = (Some AttributeError, no_entities_files)"
  by (simp add: process_results_def no_entities_files_def read_row_def)

text \<open>The same for every log that holds such a record: the run fails.\<close>

lemma process_results_entities_absent:
  assumes "text_tweets_txt fs = Some lines" and "Parsed data \<in> set lines"
    and "t_entities data = None"
  shows "\<exists>e. process_results sv fs = (Some e, fs)"
proof (cases "read_rows lines ([], [])")
  case (Inl e)
  then show ?thesis using assms(1) by (simp add: process_results_def)
next
  case (Inr acc)
  then show ?thesis using read_rows_entities_present [OF Inr assms(2)] assms(3) by simp
qed

text \<open>
  C3, on the source. On an empty log both lists are empty, \<^verbatim>\<open>pd.DataFrame([])\<close> has no
  column and \<^verbatim>\<open>groupby("username")\<close> raises \<^verbatim>\<open>KeyError\<close>; no file is written.
\<close>

theorem process_results_empty_log:
  "process_results sv empty_log_files = (Some KeyError, empty_log_files)"
  by (simp add: process_results_def empty_log_files_def group_dataframe_def DataFrame_def)

text \<open>A log with a line that does not parse makes the run fail, and no file is written.\<close>

lemma process_results_unparsable_fails:
  assumes "text_tweets_txt fs = Some lines" and "Unparsable \<in> set lines"
  shows "\<exists>e. process_results sv fs = (Some e, fs)"
proof -
  obtain pre post where "lines = pre @ Unparsable # post"
    using assms(2) by (auto dest: split_list)
  then show ?thesis
    using assms(1) by (simp add: process_results_def read_rows_Unparsable split: sum.splits)
qed

text \<open>
  C8. A log with a line that does not parse, lines \<open>pre\<close> before it and \<open>post\<close> after
  it: the run fails and leaves the files as they were. The exception is the
  \<^verbatim>\<open>JSONDecodeError\<close> of that line, unless a line of \<open>pre\<close> has raised before.
\<close>

theorem process_results_malformed:
  assumes "text_tweets_txt fs = Some (pre @ Unparsable # post)"
  shows "process_results sv fs =
          (Some (case read_rows pre ([], []) of Inl e \<Rightarrow> e | Inr acc \<Rightarrow> JSONDecodeError), fs)"
  using assms
  by (simp add: process_results_def read_rows_Unparsable split: sum.splits)

theorem process_results_malformed_witness:
  "process_results insertion_sort_values malformed_files = (Some JSONDecodeError, malformed_files)"
proof -
  have r: "\<not> isl (read_rows example_log ([], []))" by code_simp
  have "text_tweets_txt malformed_files = Some (example_log @ Unparsable # example_log)"
    by (simp add: malformed_files_def)
  from process_results_malformed [where sv = insertion_sort_values, OF this] r show ?thesis
    by (cases "read_rows example_log ([], [])") simp_all
qed



end
